theory Spec2Isabelle
  imports Main "HOL-Library.Word"
begin

unbundle bit_operations_syntax

section \<open>CYD terminal: UTF-8 decoder, escape interpreter, scrollback buffer, history\<close>

text \<open>
  A shallow embedding of the terminal core of the CYD terminal firmware:
  \<^verbatim>\<open>utf8.cpp\<close> (the incremental decoder), \<^verbatim>\<open>terminal.cpp\<close> (screen buffer,
  cursor, escape sequences, scrolling) and the command history of \<^verbatim>\<open>display.h\<close>.
  The globals of each translation unit become the fields of a record that every
  function takes and returns. Calls that only draw on the TFT, log to the SD card or
  write to the UART do not touch these globals and are left out.
\<close>

subsection \<open>Machine integers\<close>

text \<open>
  \<^verbatim>\<open>uint8_t\<close>, \<^verbatim>\<open>uint16_t\<close> and \<^verbatim>\<open>uint32_t\<close> are words. The \<^verbatim>\<open>int\<close> globals
  (cursor, counters, parameters) are 32 bits wide on the ESP32; they are modelled
  as \<open>int\<close> with the two's-complement wrap-around of the compiled code written out
  at every addition, subtraction and multiplication. The remainder operator of C++
  truncates towards zero.
\<close>

type_synonym u8 = "8 word"
type_synonym u16 = "16 word"
type_synonym u32 = "32 word"

definition wrap32 :: "int \<Rightarrow> int" where
  "wrap32 x = (x + 2147483648) mod 4294967296 - 2147483648"

definition add32 :: "int \<Rightarrow> int \<Rightarrow> int" where
  "add32 a b = wrap32 (a + b)"

definition sub32 :: "int \<Rightarrow> int \<Rightarrow> int" where
  "sub32 a b = wrap32 (a - b)"

definition mul32 :: "int \<Rightarrow> int \<Rightarrow> int" where
  "mul32 a b = wrap32 (a * b)"

definition rem32 :: "int \<Rightarrow> int \<Rightarrow> int" where
  "rem32 a b = sgn a * (\<bar>a\<bar> mod \<bar>b\<bar>)"

subsection \<open>Configuration (config.h)\<close>

abbreviation (input) SCREEN_HEIGHT :: int where "SCREEN_HEIGHT \<equiv> 240"
abbreviation (input) TERMINAL_COLS :: int where "TERMINAL_COLS \<equiv> 53"
abbreviation (input) TERMINAL_ROWS :: int where "TERMINAL_ROWS \<equiv> 27"
abbreviation (input) TERMINAL_BUFFER_ROWS :: int where "TERMINAL_BUFFER_ROWS \<equiv> 100"
abbreviation (input) TERMINAL_START_Y :: int where "TERMINAL_START_Y \<equiv> 22"
abbreviation (input) KEYBOARD_Y_POS :: int where "KEYBOARD_Y_POS \<equiv> 80"

subsection \<open>UTF-8 decoder (utf8.h, utf8.cpp)\<close>

record UTF8Decoder =
  state :: u8
  codepoint :: u32
  bytesNeeded :: u8
  bytesReceived :: u8

definition utf8Init :: "UTF8Decoder \<Rightarrow> UTF8Decoder" where
  "utf8Init decoder =
     decoder\<lparr>state := 0, codepoint := 0, bytesNeeded := 0, bytesReceived := 0\<rparr>"

text \<open>The result pairs the returned \<^verbatim>\<open>bool\<close> with the decoder after the call.\<close>

definition utf8Decode :: "UTF8Decoder \<Rightarrow> u8 \<Rightarrow> bool \<times> UTF8Decoder" where
  "utf8Decode decoder byte =
     (if bytesNeeded decoder = 0 then
        (if byte AND 0x80 = 0 then
           (True, decoder\<lparr>codepoint := ucast byte\<rparr>)
         else if byte AND 0xE0 = 0xC0 then
           (False, decoder\<lparr>codepoint := ucast (byte AND 0x1F),
                           bytesNeeded := 1, bytesReceived := 0\<rparr>)
         else if byte AND 0xF0 = 0xE0 then
           (False, decoder\<lparr>codepoint := ucast (byte AND 0x0F),
                           bytesNeeded := 2, bytesReceived := 0\<rparr>)
         else if byte AND 0xF8 = 0xF0 then
           (False, decoder\<lparr>codepoint := ucast (byte AND 0x07),
                           bytesNeeded := 3, bytesReceived := 0\<rparr>)
         else (False, utf8Init decoder))
      else
        (if byte AND 0xC0 = 0x80 then
           (let d = decoder\<lparr>codepoint := push_bit 6 (codepoint decoder) OR ucast (byte AND 0x3F),
                              bytesReceived := bytesReceived decoder + 1\<rparr>
            in if bytesNeeded d \<le> bytesReceived d
               then (True, d\<lparr>bytesNeeded := 0\<rparr>)
               else (False, d))
         else (False, utf8Init decoder)))"

definition utf8GetCodepoint :: "UTF8Decoder \<Rightarrow> u32" where
  "utf8GetCodepoint decoder = codepoint decoder"

text \<open>A byte that opens no 1-, 2-, 3- or 4-byte encoding.\<close>

definition invalidLeadByte :: "u8 \<Rightarrow> bool" where
  "invalidLeadByte byte \<longleftrightarrow>
     byte AND 0x80 \<noteq> 0 \<and> byte AND 0xE0 \<noteq> 0xC0 \<and> byte AND 0xF0 \<noteq> 0xE0 \<and> byte AND 0xF8 \<noteq> 0xF0"

definition isContinuationByte :: "u8 \<Rightarrow> bool" where
  "isContinuationByte byte \<longleftrightarrow> byte AND 0xC0 = 0x80"

subsection \<open>Terminal state (terminal.cpp)\<close>

text \<open>
  The file-scope variables of \<^verbatim>\<open>terminal.cpp\<close>. \<open>screenBuffer\<close> is the array of
  \<open>TERMINAL_BUFFER_ROWS\<close> rows of \<open>TERMINAL_COLS\<close> code points. \<open>escBuffer\<close> holds
  the bytes collected so far, so that \<^verbatim>\<open>escIndex\<close> is its length (the source never
  reads \<^verbatim>\<open>escBuffer\<close> at or beyond \<^verbatim>\<open>escIndex\<close>, except for the terminating NUL
  it has just stored there). \<open>keyboardVisible\<close> is the \<^verbatim>\<open>extern bool\<close> of the main
  sketch that the terminal reads.
\<close>

datatype color = TFT_BLACK | TFT_RED | TFT_GREEN | TFT_YELLOW | TFT_BLUE
  | TFT_MAGENTA | TFT_CYAN | TFT_WHITE

record terminal =
  screenBuffer :: "u32 list list"
  cursorX :: int
  cursorY :: int
  scrollOffset :: int
  totalLines :: int
  fgColor :: color
  bgColor :: color
  escBuffer :: "u8 list"
  inEscSequence :: bool
  utf8Decoder :: UTF8Decoder
  keyboardVisible :: bool

definition escIndex :: "terminal \<Rightarrow> int" where
  "escIndex t = int (length (escBuffer t))"

definition blankLine :: "u32 list" where
  "blankLine = replicate (nat TERMINAL_COLS) 0x20"

text \<open>The variables as the program image initialises them, before \<open>terminalInit\<close>.\<close>

definition staticInit :: terminal where
  "staticInit =
     \<lparr>screenBuffer = replicate (nat TERMINAL_BUFFER_ROWS) (replicate (nat TERMINAL_COLS) 0),
      cursorX = 0, cursorY = 0, scrollOffset = 0, totalLines = 0,
      fgColor = TFT_GREEN, bgColor = TFT_BLACK,
      escBuffer = [], inEscSequence = False,
      utf8Decoder = \<lparr>state = 0, codepoint = 0, bytesNeeded = 0, bytesReceived = 0\<rparr>,
      keyboardVisible = False\<rparr>"

definition terminalInit :: "terminal \<Rightarrow> terminal" where
  "terminalInit t =
     t\<lparr>utf8Decoder := utf8Init (utf8Decoder t),
       screenBuffer := replicate (nat TERMINAL_BUFFER_ROWS) blankLine,
       cursorX := 0, cursorY := 0, scrollOffset := 0, totalLines := 0\<rparr>"

definition freshTerminal :: terminal where
  "freshTerminal = terminalInit staticInit"

text \<open>
  A store outside the array is undefined behaviour in C++; the model makes it the
  result \<open>None\<close>. \<open>storeCell\<close> is \<^verbatim>\<open>screenBuffer[y][x] = v\<close>.
\<close>

definition storeCell :: "terminal \<Rightarrow> int \<Rightarrow> int \<Rightarrow> u32 \<Rightarrow> terminal option" where
  "storeCell t y x v =
     (if 0 \<le> y \<and> y < TERMINAL_BUFFER_ROWS \<and> 0 \<le> x \<and> x < TERMINAL_COLS
      then Some (t\<lparr>screenBuffer :=
                   (screenBuffer t)[nat y := (screenBuffer t ! nat y)[nat x := v]]\<rparr>)
      else None)"

text \<open>
  \<^verbatim>\<open>for (int x = x0; x < TERMINAL_COLS; x++) screenBuffer[y][x] = ' ';\<close>
  The loop makes no store when \<open>x0\<close> is already at the column limit.
\<close>

definition blankFrom :: "u32 list \<Rightarrow> nat \<Rightarrow> u32 list" where
  "blankFrom row x0 = fold (\<lambda>x r. r[x := 0x20]) [x0..<nat TERMINAL_COLS] row"

definition clearLineFrom :: "terminal \<Rightarrow> int \<Rightarrow> int \<Rightarrow> terminal option" where
  "clearLineFrom t y x0 =
     (if TERMINAL_COLS \<le> x0 then Some t
      else if 0 \<le> y \<and> y < TERMINAL_BUFFER_ROWS \<and> 0 \<le> x0
      then Some (t\<lparr>screenBuffer :=
                   (screenBuffer t)[nat y := blankFrom (screenBuffer t ! nat y) (nat x0)]\<rparr>)
      else None)"

subsection \<open>Viewport\<close>

text \<open>The number of rows \<open>terminalRedraw\<close> shows (lines 87 to 94).\<close>

definition visibleRows :: "terminal \<Rightarrow> int" where
  "visibleRows t =
     (let maxY = (if keyboardVisible t then KEYBOARD_Y_POS else SCREEN_HEIGHT);
          v = (maxY - TERMINAL_START_Y) div 8;
          v = (if TERMINAL_ROWS < v then TERMINAL_ROWS else v)
      in if keyboardVisible t \<and> 5 < v then 5 else v)"

definition firstLineToShow :: "terminal \<Rightarrow> int" where
  "firstLineToShow t =
     (let f = sub32 (sub32 (totalLines t) (visibleRows t)) (scrollOffset t)
      in if f < 0 then 0 else f)"

text \<open>
  The absolute line number of the cursor, as \<open>terminalRedraw\<close>, \<open>putChar\<close>,
  \<open>ensureCursorVisible\<close> and \<open>terminalScrollForKeyboard\<close> all compute it.
\<close>

definition cursorLineNumber :: "terminal \<Rightarrow> int" where
  "cursorLineNumber t =
     (if totalLines t \<le> TERMINAL_BUFFER_ROWS then cursorY t
      else
        (let newestLinePos = rem32 (sub32 (totalLines t) 1) TERMINAL_BUFFER_ROWS;
             offset = rem32 (add32 (sub32 newestLinePos (cursorY t)) TERMINAL_BUFFER_ROWS)
                        TERMINAL_BUFFER_ROWS
         in sub32 (sub32 (totalLines t) 1) offset))"

text \<open>
  The drawing loop of \<open>terminalRedraw\<close> (lines 101 to 125), as the list of the rows it
  draws: screen row \<open>y\<close>, absolute line number, physical buffer line. \<^verbatim>\<open>break\<close> ends
  the list, \<^verbatim>\<open>continue\<close> skips a row.
\<close>

fun drawLines :: "terminal \<Rightarrow> int \<Rightarrow> int list \<Rightarrow> (int \<times> int \<times> int) list" where
  "drawLines t first [] = []"
| "drawLines t first (y # ys) =
     (let lineNumber = add32 first y in
      if totalLines t \<le> lineNumber then []
      else if totalLines t \<le> TERMINAL_BUFFER_ROWS then
        (y, lineNumber, lineNumber) # drawLines t first ys
      else if lineNumber < sub32 (totalLines t) TERMINAL_BUFFER_ROWS then
        drawLines t first ys
      else (y, lineNumber, rem32 lineNumber TERMINAL_BUFFER_ROWS) # drawLines t first ys)"

definition terminalRedraw :: "terminal \<Rightarrow> (int \<times> int \<times> int) list" where
  "terminalRedraw t = drawLines t (firstLineToShow t) [0..visibleRows t - 1]"

definition ensureCursorVisible :: "terminal \<Rightarrow> terminal" where
  "ensureCursorVisible t =
     (if \<not> keyboardVisible t then
        (if scrollOffset t \<noteq> 0 then t\<lparr>scrollOffset := 0\<rparr> else t)
      else
        (let v = (KEYBOARD_Y_POS - TERMINAL_START_Y) div 8;
             v = (if 5 < v then 5 else v);
             cursorAbsoluteLine = cursorLineNumber t;
             targetCursorScreenPos = v;
             targetFirstLine = sub32 cursorAbsoluteLine targetCursorScreenPos;
             targetFirstLine = (if targetFirstLine < 0 then 0 else targetFirstLine);
             newScrollOffset = sub32 (sub32 (totalLines t) v) targetFirstLine;
             newScrollOffset = (if newScrollOffset < 0 then 0 else newScrollOffset);
             maxScroll = sub32 (totalLines t) v;
             maxScroll = (if maxScroll < 0 then 0 else maxScroll);
             newScrollOffset = (if maxScroll < newScrollOffset then maxScroll else newScrollOffset)
         in t\<lparr>scrollOffset := newScrollOffset\<rparr>))"

subsection \<open>Writing into the buffer\<close>

definition scrollUp :: "terminal \<Rightarrow> terminal option" where
  "scrollUp t =
     (let nextLine = rem32 (totalLines t) TERMINAL_BUFFER_ROWS in
      case clearLineFrom t nextLine 0 of
        None \<Rightarrow> None
      | Some t1 \<Rightarrow> Some (t1\<lparr>cursorY := nextLine, totalLines := add32 (totalLines t1) 1\<rparr>))"

text \<open>
  The block that \<open>putChar\<close> runs for a line feed (lines 301 to 342) and again when
  the column limit is reached (lines 427 to 460). The two copies differ only in
  calls of \<open>terminalRedraw\<close>, which changes no variable.
\<close>

definition lineAdvance :: "terminal \<Rightarrow> terminal option" where
  "lineAdvance t =
     (let t1 = t\<lparr>cursorX := 0, cursorY := add32 (cursorY t) 1\<rparr> in
      case (if cursorY t1 < TERMINAL_BUFFER_ROWS then clearLineFrom t1 (cursorY t1) 0
            else Some t1) of
        None \<Rightarrow> None
      | Some t2 \<Rightarrow>
          (let t3 = (if totalLines t2 < TERMINAL_BUFFER_ROWS \<and> totalLines t2 \<le> cursorY t2
                     then t2\<lparr>totalLines := add32 (cursorY t2) 1\<rparr> else t2) in
           if TERMINAL_BUFFER_ROWS \<le> cursorY t3 then
             (case scrollUp (t3\<lparr>cursorY := sub32 TERMINAL_BUFFER_ROWS 1\<rparr>) of
                None \<Rightarrow> None
              | Some t4 \<Rightarrow> Some (ensureCursorVisible t4))
           else Some (ensureCursorVisible t3)))"

definition putChar :: "terminal \<Rightarrow> u32 \<Rightarrow> terminal option" where
  "putChar t cp =
     (if cp = 0x0D then Some (t\<lparr>cursorX := 0\<rparr>)
      else if cp = 0x0A then lineAdvance t
      else if cp = 0x08 then
        (if 0 < cursorX t then
           (let t1 = t\<lparr>cursorX := sub32 (cursorX t) 1\<rparr>
            in storeCell t1 (cursorY t1) (cursorX t1) 0x20)
         else Some t)
      else if 32 \<le> cp then
        (case storeCell t (cursorY t) (cursorX t) cp of
           None \<Rightarrow> None
         | Some t1 \<Rightarrow>
             (let t2 = t1\<lparr>cursorX := add32 (cursorX t1) 1\<rparr> in
              if TERMINAL_COLS \<le> cursorX t2 then lineAdvance t2 else Some t2))
      else Some t)"

text \<open>A sequence of code points, one \<open>putChar\<close> after the other.\<close>

fun putChars :: "terminal \<Rightarrow> u32 list \<Rightarrow> terminal option" where
  "putChars t [] = Some t"
| "putChars t (cp # cps) =
     (case putChar t cp of None \<Rightarrow> None | Some t1 \<Rightarrow> putChars t1 cps)"

subsection \<open>Escape sequences\<close>

text \<open>
  The parameter loop of \<open>processEscSequence\<close> (lines 472 to 491) over the bytes
  between the first collected byte and the command letter. Its variables are
  \<^verbatim>\<open>params\<close>, \<^verbatim>\<open>paramCount\<close>, \<^verbatim>\<open>num\<close> and \<^verbatim>\<open>hasNum\<close>. The comparisons with
  \<^verbatim>\<open>'0'\<close>, \<^verbatim>\<open>'9'\<close> and \<^verbatim>\<open>';'\<close> come out the same for a signed and an
  unsigned \<^verbatim>\<open>char\<close>.
\<close>

type_synonym parseState = "int list \<times> int \<times> int \<times> bool"

fun parseStep :: "parseState \<Rightarrow> u8 \<Rightarrow> parseState" where
  "parseStep (params, paramCount, num, hasNum) c =
     (if 0x30 \<le> c \<and> c \<le> 0x39 then
        (params, paramCount, add32 (mul32 num 10) (uint c - 0x30), True)
      else if c = 0x3B then
        (if hasNum \<and> paramCount < 4
         then (params[nat paramCount := num], paramCount + 1, 0, False)
         else (params, paramCount, 0, False))
      else (params, paramCount, num, hasNum))"

fun parseFinish :: "parseState \<Rightarrow> int list \<times> int" where
  "parseFinish (params, paramCount, num, hasNum) =
     (if hasNum \<and> paramCount < 4
      then (params[nat paramCount := num], paramCount + 1)
      else (params, paramCount))"

definition parseParams :: "u8 list \<Rightarrow> int list \<times> int" where
  "parseParams body = parseFinish (foldl parseStep ([0, 0, 0, 0], 0, 0, False) body)"

definition constrain :: "int \<Rightarrow> int \<Rightarrow> int \<Rightarrow> int" where
  "constrain x lo hi = (if x < lo then lo else if hi < x then hi else x)"

definition terminalClear :: "terminal \<Rightarrow> terminal" where
  "terminalClear t =
     t\<lparr>screenBuffer := replicate (nat TERMINAL_BUFFER_ROWS) blankLine,
       cursorX := 0, cursorY := 0, scrollOffset := 0, totalLines := 0\<rparr>"

definition setForeground :: "terminal \<Rightarrow> int \<Rightarrow> terminal" where
  "setForeground t p =
     (if p = 30 then t\<lparr>fgColor := TFT_BLACK\<rparr>
      else if p = 31 then t\<lparr>fgColor := TFT_RED\<rparr>
      else if p = 32 then t\<lparr>fgColor := TFT_GREEN\<rparr>
      else if p = 33 then t\<lparr>fgColor := TFT_YELLOW\<rparr>
      else if p = 34 then t\<lparr>fgColor := TFT_BLUE\<rparr>
      else if p = 35 then t\<lparr>fgColor := TFT_MAGENTA\<rparr>
      else if p = 36 then t\<lparr>fgColor := TFT_CYAN\<rparr>
      else if p = 37 then t\<lparr>fgColor := TFT_WHITE\<rparr>
      else t)"

text \<open>The \<^verbatim>\<open>switch (cmd)\<close> of \<open>processEscSequence\<close> (lines 494 to 564).\<close>

definition runCommand :: "terminal \<Rightarrow> u8 \<Rightarrow> int list \<Rightarrow> int \<Rightarrow> terminal option" where
  "runCommand t cmd params paramCount =
     (if cmd = 0x48 \<or> cmd = 0x66 then
        (let y = (if 0 < paramCount \<and> 0 < params ! 0 then sub32 (params ! 0) 1 else 0);
             x = (if 1 < paramCount \<and> 0 < params ! 1 then sub32 (params ! 1) 1 else 0)
         in Some (t\<lparr>cursorX := constrain x 0 (TERMINAL_COLS - 1),
                    cursorY := constrain y 0 (TERMINAL_ROWS - 1)\<rparr>))
      else if cmd = 0x4A then
        (if params ! 0 = 2 then Some (terminalClear t) else Some t)
      else if cmd = 0x4B then clearLineFrom t (cursorY t) (cursorX t)
      else if cmd = 0x6D then
        (if paramCount = 0 \<or> params ! 0 = 0
         then Some (t\<lparr>fgColor := TFT_GREEN, bgColor := TFT_BLACK\<rparr>)
         else Some (foldl setForeground t (take (nat paramCount) params)))
      else if cmd = 0x41 then
        (let p = (if params ! 0 = 0 then 1 else params ! 0);
             y = sub32 (cursorY t) p
         in Some (t\<lparr>cursorY := (if y < 0 then 0 else y)\<rparr>))
      else if cmd = 0x42 then
        (let p = (if params ! 0 = 0 then 1 else params ! 0);
             y = add32 (cursorY t) p
         in Some (t\<lparr>cursorY := (if TERMINAL_ROWS \<le> y then TERMINAL_ROWS - 1 else y)\<rparr>))
      else if cmd = 0x43 then
        (let p = (if params ! 0 = 0 then 1 else params ! 0);
             x = add32 (cursorX t) p
         in Some (t\<lparr>cursorX := (if TERMINAL_COLS \<le> x then TERMINAL_COLS - 1 else x)\<rparr>))
      else if cmd = 0x44 then
        (let p = (if params ! 0 = 0 then 1 else params ! 0);
             x = sub32 (cursorX t) p
         in Some (t\<lparr>cursorX := (if x < 0 then 0 else x)\<rparr>))
      else Some t)"

text \<open>
  \<open>processEscSequence\<close>. The store of the terminating NUL at \<^verbatim>\<open>escBuffer[escIndex]\<close>
  needs \<^verbatim>\<open>escIndex\<close> below the size of the array, 32.
\<close>

definition resetEsc :: "terminal \<Rightarrow> terminal" where
  "resetEsc t = t\<lparr>inEscSequence := False, escBuffer := []\<rparr>"

definition processEscSequence :: "terminal \<Rightarrow> terminal option" where
  "processEscSequence t =
     (if 32 \<le> escIndex t then None
      else if 2 \<le> escIndex t \<and> escBuffer t ! 0 = 0x5B then
        (let cmd = escBuffer t ! nat (escIndex t - 1);
             (params, paramCount) = parseParams (butlast (tl (escBuffer t)))
         in map_option resetEsc (runCommand t cmd params paramCount))
      else Some (resetEsc t))"

definition isLetter :: "u8 \<Rightarrow> bool" where
  "isLetter byte \<longleftrightarrow> (0x41 \<le> byte \<and> byte \<le> 0x5A) \<or> (0x61 \<le> byte \<and> byte \<le> 0x7A)"

text \<open>
  \<open>terminalUpdate\<close> for one byte read from the serial port (lines 578 to 610).
\<close>

definition terminalUpdate :: "terminal \<Rightarrow> u8 \<Rightarrow> terminal option" where
  "terminalUpdate t byte =
     (if inEscSequence t then
        (if escIndex t < 31 then
           (let t1 = t\<lparr>escBuffer := escBuffer t @ [byte]\<rparr>
            in if isLetter byte then processEscSequence t1 else Some t1)
         else Some (resetEsc t))
      else if byte = 0x1B then Some (t\<lparr>inEscSequence := True, escBuffer := []\<rparr>)
      else
        (case utf8Decode (utf8Decoder t) byte of
           (True, d) \<Rightarrow>
             map_option (\<lambda>t1. t1\<lparr>utf8Decoder := utf8Init (utf8Decoder t1)\<rparr>)
               (putChar (t\<lparr>utf8Decoder := d\<rparr>) (utf8GetCodepoint d))
         | (False, d) \<Rightarrow> Some (t\<lparr>utf8Decoder := d\<rparr>)))"

fun terminalFeed :: "terminal \<Rightarrow> u8 list \<Rightarrow> terminal option" where
  "terminalFeed t [] = Some t"
| "terminalFeed t (byte # bytes) =
     (case terminalUpdate t byte of None \<Rightarrow> None | Some t1 \<Rightarrow> terminalFeed t1 bytes)"

subsection \<open>Scrolling\<close>

definition terminalScroll :: "terminal \<Rightarrow> int \<Rightarrow> terminal" where
  "terminalScroll t delta =
     (let so = add32 (scrollOffset t) delta;
          maxScroll = sub32 (totalLines t) TERMINAL_ROWS;
          maxScroll = (if maxScroll < 0 then 0 else maxScroll);
          so = (if so < 0 then 0 else so);
          so = (if maxScroll < so then maxScroll else so)
      in t\<lparr>scrollOffset := so\<rparr>)"

definition terminalGetMaxScroll :: "terminal \<Rightarrow> int" where
  "terminalGetMaxScroll t =
     (let maxScroll = sub32 (totalLines t) TERMINAL_ROWS in if 0 < maxScroll then maxScroll else 0)"



subsection \<open>Command history (display.h)\<close>


record history =
  commandHistory :: "string list"
  historyCount :: int
  inputBuffer :: string
  currentHistoryIndex :: int
  savedNewCommand :: string
  localEcho :: string




definition clearCommandHistory :: "history \<Rightarrow> history" where
  "clearCommandHistory h = h\<lparr>historyCount := 0, currentHistoryIndex := - 1\<rparr>"









subsection \<open>Scenarios and shapes used by the properties\<close>

text \<open>
  The screen buffer has its declared shape: \<open>TERMINAL_BUFFER_ROWS\<close> rows of
  \<open>TERMINAL_COLS\<close> cells.
\<close>

definition bufferShape :: "terminal \<Rightarrow> bool" where
  "bufferShape t \<longleftrightarrow>
     length (screenBuffer t) = nat TERMINAL_BUFFER_ROWS
     \<and> (\<forall>row \<in> set (screenBuffer t). length row = nat TERMINAL_COLS)"

text \<open>
  A terminal whose buffer is full for the first time: 100 lines, the cursor on the
  last row, and text in the rows 0 and 1.
\<close>

definition usedTerminal :: terminal where
  "usedTerminal =
     freshTerminal\<lparr>screenBuffer := (screenBuffer freshTerminal)
                       [0 := replicate 53 0x78, 1 := replicate 53 0x79],
                   cursorY := 99, totalLines := 100\<rparr>"

text \<open>
  A line of text followed by a line feed, and a list of such lines, written with
  \<open>putChar\<close>. A printable line has fewer than \<open>TERMINAL_COLS\<close> code points, all of
  them at least 0x20, so that it does not wrap.
\<close>

definition appendLine :: "terminal \<Rightarrow> u32 list \<Rightarrow> terminal option" where
  "appendLine t line = putChars t (line @ [0x0A])"

fun appendLines :: "terminal \<Rightarrow> u32 list list \<Rightarrow> terminal option" where
  "appendLines t [] = Some t"
| "appendLines t (line # lines) =
     (case appendLine t line of None \<Rightarrow> None | Some t1 \<Rightarrow> appendLines t1 lines)"

definition printableLine :: "u32 list \<Rightarrow> bool" where
  "printableLine line \<longleftrightarrow> length line < nat TERMINAL_COLS \<and> (\<forall>c \<in> set line. 32 \<le> c)"

text \<open>
  What a row holds once a line has been written into it from column 0 and the row
  was blank before: the line, then spaces. \<open>lineAt lines j\<close> is the stored form of
  line \<open>j\<close>, and a blank row from the end of the list on.
\<close>

definition padLine :: "u32 list \<Rightarrow> u32 list" where
  "padLine line = line @ replicate (nat TERMINAL_COLS - length line) 0x20"

definition lineAt :: "u32 list list \<Rightarrow> nat \<Rightarrow> u32 list" where
  "lineAt lines j = (if j < length lines then padLine (lines ! j) else blankLine)"

text \<open>
  The state of a fresh terminal after a list of at most 199 printable lines, with
  the keyboard hidden. \<open>slotLine k r\<close> is the number of the line that row \<open>r\<close> holds
  after \<open>k\<close> lines.
\<close>

definition slotLine :: "nat \<Rightarrow> nat \<Rightarrow> nat" where
  "slotLine k r = (if 100 + r \<le> k then 100 + r else r)"

definition linesState :: "u32 list list \<Rightarrow> terminal \<Rightarrow> bool" where
  "linesState ls t \<longleftrightarrow>
     bufferShape t \<and> \<not> keyboardVisible t \<and> scrollOffset t = 0 \<and> cursorX t = 0
     \<and> cursorY t = int (length ls mod 100)
     \<and> totalLines t = (if length ls = 0 then 0 else if length ls < 100 then int (length ls) + 1 else 101)
     \<and> (\<forall>r < 100. screenBuffer t ! r = lineAt ls (slotLine (length ls) r))"

text \<open>
  The cursor addresses a cell of the buffer. \<open>isDigit\<close> is the test of the
  parameter loop for a decimal digit, and \<open>parseBounded d\<close> says of the variables of
  that loop that every stored parameter is below \<open>10 ^ 9\<close> and the number being read
  is below \<open>10 ^ d\<close>.
\<close>

definition cursorInBounds :: "terminal \<Rightarrow> bool" where
  "cursorInBounds t \<longleftrightarrow>
     0 \<le> cursorX t \<and> cursorX t < TERMINAL_COLS \<and> 0 \<le> cursorY t \<and> cursorY t < TERMINAL_BUFFER_ROWS"

definition isDigit :: "u8 \<Rightarrow> bool" where
  "isDigit c \<longleftrightarrow> 0x30 \<le> c \<and> c \<le> 0x39"

fun parseBounded :: "nat \<Rightarrow> parseState \<Rightarrow> bool" where
  "parseBounded d (params, paramCount, num, hasNum) \<longleftrightarrow>
     length params = 4 \<and> (\<forall>p \<in> set params. 0 \<le> p \<and> p < 10 ^ 9)
     \<and> 0 \<le> paramCount \<and> 0 \<le> num \<and> num < 10 ^ d"






text \<open>The cursor as (row, column), and the first line shown after a scroll.\<close>

definition cursorPosition :: "terminal option \<Rightarrow> (int \<times> int) option" where
  "cursorPosition r = map_option (\<lambda>t. (cursorY t, cursorX t)) r"



section \<open>Properties\<close>

subsection \<open>Arithmetic\<close>

lemma wrap32_id: "- 2147483648 \<le> x \<Longrightarrow> x < 2147483648 \<Longrightarrow> wrap32 x = x"
  by (simp add: wrap32_def)

lemma rem32_nonneg: "0 \<le> a \<Longrightarrow> rem32 a 100 = a mod 100"
  by (cases "a = 0") (simp_all add: rem32_def)

lemma mod100: "k < 200 \<Longrightarrow> k mod 100 = (if k < 100 then k else k - 100)" for k :: nat
  by (simp add: le_mod_geq)

lemma add32_id: "- 2147483648 \<le> a + b \<Longrightarrow> a + b < 2147483648 \<Longrightarrow> add32 a b = a + b"
  by (simp add: add32_def wrap32_id)

lemma sub32_id: "- 2147483648 \<le> a - b \<Longrightarrow> a - b < 2147483648 \<Longrightarrow> sub32 a b = a - b"
  by (simp add: sub32_def wrap32_id)

lemma rem32_range: "0 \<le> a \<Longrightarrow> 0 \<le> rem32 a 100 \<and> rem32 a 100 < 100"
  by (simp add: rem32_nonneg)

lemma pow10_le: "d \<le> 9 \<Longrightarrow> (10::int) ^ d \<le> 10 ^ 9"
  by (rule power_increasing) simp_all

subsection \<open>Decoder\<close>

text \<open>
  C6. Whatever the decoder state, a byte that is an invalid leading byte (when a new
  character starts) or that is not of the form 10xxxxxx (when a continuation byte is
  expected) makes \<open>utf8Decode\<close> return false and leaves the decoder in the state that
  \<open>utf8Init\<close> produces: all four fields are 0. Nothing of the byte is kept, so it is
  dropped and not taken as the leading byte of the next character, even when it
  would be a valid one.
\<close>

theorem utf8Decode_malformed_resets:
  assumes "(bytesNeeded decoder = 0 \<and> invalidLeadByte byte)
           \<or> (bytesNeeded decoder \<noteq> 0 \<and> \<not> isContinuationByte byte)"
  shows "fst (utf8Decode decoder byte) = False
         \<and> snd (utf8Decode decoder byte) = utf8Init decoder
         \<and> state (utf8Init decoder) = 0 \<and> codepoint (utf8Init decoder) = 0
         \<and> bytesNeeded (utf8Init decoder) = 0 \<and> bytesReceived (utf8Init decoder) = 0"
  using assms
  by (auto simp: utf8Decode_def invalidLeadByte_def isContinuationByte_def utf8Init_def)

theorem utf8Decode_malformed_resets_witness:
  "((bytesNeeded \<lparr>state = 0, codepoint = 0x1F, bytesNeeded = 1, bytesReceived = 0\<rparr> \<noteq> 0
      \<and> \<not> isContinuationByte 0x41)
    \<and> (bytesNeeded \<lparr>state = 0, codepoint = 0, bytesNeeded = 0, bytesReceived = 0\<rparr> = 0
      \<and> invalidLeadByte 0xBF))
   \<and> utf8Decode \<lparr>state = 0, codepoint = 0x1F, bytesNeeded = 1, bytesReceived = 0\<rparr> 0x41
       = (False, \<lparr>state = 0, codepoint = 0, bytesNeeded = 0, bytesReceived = 0\<rparr>)
   \<and> utf8Decode \<lparr>state = 0, codepoint = 0, bytesNeeded = 0, bytesReceived = 0\<rparr> 0xBF
       = (False, \<lparr>state = 0, codepoint = 0, bytesNeeded = 0, bytesReceived = 0\<rparr>)
   \<and> fst (utf8Decode \<lparr>state = 0, codepoint = 0, bytesNeeded = 0, bytesReceived = 0\<rparr> 0x41)"
  using utf8Decode_malformed_resets
          [of "\<lparr>state = 0, codepoint = 0x1F, bytesNeeded = 1, bytesReceived = 0\<rparr>" "0x41"]
        utf8Decode_malformed_resets
          [of "\<lparr>state = 0, codepoint = 0, bytesNeeded = 0, bytesReceived = 0\<rparr>" "0xBF"]
  by (simp add: invalidLeadByte_def isContinuationByte_def utf8Init_def utf8Decode_def prod_eq_iff)

subsection \<open>Escape sequences reach the command switch\<close>

lemma terminalFeed_append:
  "terminalFeed t (xs @ ys) = (case terminalFeed t xs of None \<Rightarrow> None | Some t1 \<Rightarrow> terminalFeed t1 ys)"
  by (induction xs arbitrary: t) (auto split: option.splits)

lemma terminalFeed_collect:
  "inEscSequence t \<Longrightarrow> \<forall>b \<in> set bs. \<not> isLetter b \<Longrightarrow> length (escBuffer t) + length bs \<le> 31
   \<Longrightarrow> terminalFeed t bs = Some (t\<lparr>escBuffer := escBuffer t @ bs\<rparr>)"
proof (induction bs arbitrary: t)
  case Nil
  then show ?case by simp
next
  case (Cons b bs)
  have step: "terminalUpdate t b = Some (t\<lparr>escBuffer := escBuffer t @ [b]\<rparr>)"
    using Cons.prems by (simp add: terminalUpdate_def escIndex_def)
  have "terminalFeed (t\<lparr>escBuffer := escBuffer t @ [b]\<rparr>) bs
        = Some (t\<lparr>escBuffer := escBuffer t @ [b]\<rparr>\<lparr>escBuffer := escBuffer (t\<lparr>escBuffer := escBuffer t @ [b]\<rparr>) @ bs\<rparr>)"
    using Cons.prems by (intro Cons.IH) auto
  with step show ?case by simp
qed

lemma processEscSequence_csi:
  assumes "escBuffer t = 0x5B # body @ [cmd]" "length body \<le> 29"
  shows "processEscSequence t
         = (case parseParams body of (params, paramCount) \<Rightarrow>
              map_option resetEsc (runCommand t cmd params paramCount))"
proof -
  have i: "escIndex t = int (length body) + 2"
    using assms(1) by (simp add: escIndex_def)
  have n: "escBuffer t ! nat (escIndex t - 1) = cmd"
    using assms(1) by (simp add: i nat_add_distrib nth_append)
  have z: "escBuffer t ! 0 = 0x5B"
    using assms(1) by simp
  have b: "butlast (tl (escBuffer t)) = body"
    using assms(1) by (simp add: butlast_append)
  have r: "\<not> 32 \<le> escIndex t" "2 \<le> escIndex t"
    using assms(2) i by simp_all
  show ?thesis
    unfolding processEscSequence_def Let_def n z b using r by simp
qed

lemma terminalFeed_csi:
  assumes "\<not> inEscSequence t" "\<forall>b \<in> set body. \<not> isLetter b" "length body \<le> 29" "isLetter cmd"
  shows "terminalFeed t ([0x1B, 0x5B] @ body @ [cmd])
         = (case parseParams body of (params, paramCount) \<Rightarrow>
              map_option resetEsc (runCommand (t\<lparr>inEscSequence := True, escBuffer := 0x5B # body @ [cmd]\<rparr>) cmd params paramCount))"
proof -
  let ?t1 = "t\<lparr>inEscSequence := True, escBuffer := []\<rparr>"
  have a: "terminalUpdate t 0x1B = Some ?t1"
    using assms(1) by (simp add: terminalUpdate_def)
  have b: "terminalFeed ?t1 (0x5B # body) = Some (?t1\<lparr>escBuffer := escBuffer ?t1 @ (0x5B # body)\<rparr>)"
    using assms(2,3) by (intro terminalFeed_collect) (auto simp: isLetter_def)
  let ?t2 = "t\<lparr>inEscSequence := True, escBuffer := 0x5B # body\<rparr>"
  let ?t3 = "t\<lparr>inEscSequence := True, escBuffer := 0x5B # body @ [cmd]\<rparr>"
  have c: "terminalUpdate ?t2 cmd = processEscSequence ?t3"
    using assms(3,4) by (simp add: terminalUpdate_def escIndex_def)
  have d: "processEscSequence ?t3
         = (case parseParams body of (params, paramCount) \<Rightarrow>
              map_option resetEsc (runCommand ?t3 cmd params paramCount))"
    using assms(3) by (intro processEscSequence_csi) simp_all
  have "terminalFeed t ([0x1B, 0x5B] @ body @ [cmd])
        = (case terminalFeed ?t1 (0x5B # body) of None \<Rightarrow> None | Some t1 \<Rightarrow> terminalFeed t1 [cmd])"
    using a terminalFeed_append[of ?t1 "0x5B # body" "[cmd]"] by simp
  also have "\<dots> = terminalUpdate ?t2 cmd"
    using b by (simp split: option.splits)
  finally show ?thesis using c d by simp
qed

lemma constrain_bounds: "lo \<le> hi \<Longrightarrow> lo \<le> constrain x lo hi \<and> constrain x lo hi \<le> hi"
  by (simp add: constrain_def)

lemma digit_value: "isDigit c \<Longrightarrow> 0 \<le> uint c - 0x30 \<and> uint c - 0x30 \<le> 9"
  by (simp add: isDigit_def word_le_def)











subsection \<open>Empty parameter positions\<close>

lemma parseStep_semicolon_twice:
  "parseStep (parseStep st 0x3B) 0x3B = parseStep st 0x3B"
  by (cases st) simp

lemma parseParams_leading_empty: "parseParams (0x3B # body) = parseParams body"
  by (simp add: parseParams_def)

lemma parseParams_inner_empty:
  "parseParams (xs @ [0x3B, 0x3B] @ ys) = parseParams (xs @ [0x3B] @ ys)"
  by (simp add: parseParams_def parseStep_semicolon_twice)

lemma parseParams_only_semicolons:
  "set e \<subseteq> {0x3B} \<Longrightarrow> foldl parseStep ([0, 0, 0, 0], 0, 0, False) e = ([0, 0, 0, 0], 0, 0, False)"
  by (induction e) auto

text \<open>
  What the parameter loop does with an empty position: a leading semicolon and a
  doubled semicolon change nothing in what is parsed. A command whose body holds
  semicolons only has no parameter and takes its default: H and f go to row 0,
  column 0, and A, B, C, D move by 1.
\<close>

lemma csi_parameters_without_digits:
  assumes "\<not> inEscSequence t" and "set e \<subseteq> {0x3B}" and "length e \<le> 29"
  shows "parseParams (0x3B # body) = parseParams body
       \<and> parseParams (xs @ [0x3B, 0x3B] @ ys) = parseParams (xs @ [0x3B] @ ys)
       \<and> cursorPosition (terminalFeed t [0x1B, 0x5B, 0x3B, 0x35, 0x48]) = Some (4, 0)
       \<and> cursorPosition (terminalFeed t ([0x1B, 0x5B] @ e @ [0x48])) = Some (0, 0)
       \<and> cursorPosition (terminalFeed t ([0x1B, 0x5B] @ e @ [0x66])) = Some (0, 0)
       \<and> cursorPosition (terminalFeed t ([0x1B, 0x5B] @ e @ [0x41]))
           = Some (if sub32 (cursorY t) 1 < 0 then 0 else sub32 (cursorY t) 1, cursorX t)
       \<and> cursorPosition (terminalFeed t ([0x1B, 0x5B] @ e @ [0x42]))
           = Some (if TERMINAL_ROWS \<le> add32 (cursorY t) 1 then TERMINAL_ROWS - 1
                   else add32 (cursorY t) 1, cursorX t)
       \<and> cursorPosition (terminalFeed t ([0x1B, 0x5B] @ e @ [0x43]))
           = Some (cursorY t, if TERMINAL_COLS \<le> add32 (cursorX t) 1 then TERMINAL_COLS - 1
                   else add32 (cursorX t) 1)
       \<and> cursorPosition (terminalFeed t ([0x1B, 0x5B] @ e @ [0x44]))
           = Some (cursorY t, if sub32 (cursorX t) 1 < 0 then 0 else sub32 (cursorX t) 1)"
proof -
  have nl: "\<forall>b \<in> set e. \<not> isLetter b"
    using assms(2) by (auto simp: isLetter_def)
  have pe: "parseParams e = ([0, 0, 0, 0], 0)"
    using parseParams_only_semicolons[OF assms(2)] by (simp add: parseParams_def)
  have p5: "parseParams [0x3B, 0x35] = ([5, 0, 0, 0], 1)"
    by (simp add: parseParams_def add32_def mul32_def wrap32_def)
  have c5: "cursorPosition (terminalFeed t [0x1B, 0x5B, 0x3B, 0x35, 0x48]) = Some (4, 0)"
    using terminalFeed_csi[of t "[0x3B, 0x35]" "0x48"] assms(1) p5
    by (simp add: cursorPosition_def isLetter_def runCommand_def resetEsc_def constrain_def
          sub32_def wrap32_def)
  have cmd: "isLetter c \<Longrightarrow> cursorPosition (terminalFeed t ([0x1B, 0x5B] @ e @ [c]))
        = cursorPosition (runCommand (t\<lparr>inEscSequence := True, escBuffer := 0x5B # e @ [c]\<rparr>) c [0, 0, 0, 0] 0)" for c
    using terminalFeed_csi[OF assms(1) nl assms(3), of c] pe
    by (cases "runCommand (t\<lparr>inEscSequence := True, escBuffer := 0x5B # e @ [c]\<rparr>) c [0, 0, 0, 0] 0")
       (simp_all add: cursorPosition_def resetEsc_def)
  show ?thesis
    using parseParams_leading_empty parseParams_inner_empty c5
      cmd[of "0x48"] cmd[of "0x66"] cmd[of "0x41"] cmd[of "0x42"] cmd[of "0x43"] cmd[of "0x44"]
    by (simp add: isLetter_def runCommand_def cursorPosition_def constrain_def Let_def)
qed

text \<open>
  C7 does not hold of the code. In ESC [ ; 5 H the first position is empty and the
  5 stands in the second, the column of the documented form ESC [ y ; x H. The
  parameter loop stores a number only when digits were seen, so the 5 is stored as
  the first parameter and the cursor goes to row 4, column 0, not to row 0,
  column 4 as ESC [ 1 ; 5 H does. An empty position at the end is handled as the
  claim says: ESC [ 5 ; H and ESC [ 5 H both go to row 4, column 0.
\<close>

theorem csi_leading_empty_parameter:
  "cursorPosition (terminalFeed freshTerminal [0x1B, 0x5B, 0x3B, 0x35, 0x48]) = Some (4, 0)
   \<and> cursorPosition (terminalFeed freshTerminal [0x1B, 0x5B, 0x31, 0x3B, 0x35, 0x48]) = Some (0, 4)
   \<and> cursorPosition (terminalFeed freshTerminal [0x1B, 0x5B, 0x35, 0x3B, 0x48]) = Some (4, 0)
   \<and> cursorPosition (terminalFeed freshTerminal [0x1B, 0x5B, 0x35, 0x48]) = Some (4, 0)"
  by (simp add: cursorPosition_def freshTerminal_def terminalInit_def staticInit_def
        terminalUpdate_def escIndex_def isLetter_def processEscSequence_def parseParams_def
        runCommand_def resetEsc_def constrain_def add32_def mul32_def sub32_def wrap32_def)

subsection \<open>Control code points\<close>

text \<open>
  C10. A code point below 0x20 other than carriage return (0x0D), line feed (0x0A)
  and backspace (0x08) takes no branch of \<open>putChar\<close>: the call returns the terminal
  it was given, so the screen buffer, the cursor, \<open>totalLines\<close> and \<open>scrollOffset\<close>
  are all unchanged.
\<close>

theorem putChar_ignores_other_controls:
  assumes "cp < 0x20" and "cp \<noteq> 0x0D" and "cp \<noteq> 0x0A" and "cp \<noteq> 0x08"
  shows "putChar t cp = Some t"
proof -
  have "\<not> 32 \<le> cp" using assms(1) by (simp add: not_le)
  then show ?thesis using assms(2-4) by (simp add: putChar_def)
qed

theorem putChar_ignores_other_controls_witness:
  "(0x09 :: u32) < 0x20 \<and> (0x09 :: u32) \<noteq> 0x0D \<and> (0x09 :: u32) \<noteq> 0x0A \<and> (0x09 :: u32) \<noteq> 0x08
   \<and> putChar freshTerminal 0x09 = Some freshTerminal
   \<and> putChar freshTerminal 0x07 = Some freshTerminal"
  using putChar_ignores_other_controls [of "0x09" freshTerminal]
        putChar_ignores_other_controls [of "0x07" freshTerminal]
  by simp

subsection \<open>Clearing a row and advancing a line\<close>

lemma length_fold_update: "length (fold (\<lambda>x r. r[x := v]) xs row) = length row"
  by (induction xs arbitrary: row) auto

lemma nth_fold_update:
  "i < length row \<Longrightarrow> fold (\<lambda>x r. r[x := v]) xs row ! i = (if i \<in> set xs then v else row ! i)"
  by (induction xs arbitrary: row) (auto simp: nth_list_update)

lemma blankFrom_zero: "length row = 53 \<Longrightarrow> blankFrom row 0 = blankLine"
  by (rule nth_equalityI) (auto simp: blankFrom_def blankLine_def length_fold_update nth_fold_update)

lemma bufferShape_length: "bufferShape t \<Longrightarrow> length (screenBuffer t) = 100"
  unfolding bufferShape_def by simp

lemma bufferShape_row:
  assumes "bufferShape t" "y < 100"
  shows "length (screenBuffer t ! y) = 53"
proof -
  have "screenBuffer t ! y \<in> set (screenBuffer t)"
    using assms bufferShape_length by (intro nth_mem) simp
  moreover have "\<forall>row \<in> set (screenBuffer t). length row = 53"
    using assms(1) unfolding bufferShape_def by simp
  ultimately show ?thesis by blast
qed

lemma bufferShape_update:
  "bufferShape t \<Longrightarrow> length row = 53 \<Longrightarrow> screenBuffer t' = (screenBuffer t)[i := row] \<Longrightarrow> bufferShape t'"
  by (auto simp: bufferShape_def dest!: set_update_subset_insert[THEN subsetD])

lemma bufferShape_fresh: "bufferShape freshTerminal"
  by (simp add: bufferShape_def freshTerminal_def terminalInit_def staticInit_def blankLine_def)

lemma length_blankLine: "length blankLine = 53"
  by (simp add: blankLine_def)

lemma clearLineFrom_zero:
  assumes "bufferShape t" "0 \<le> y" "y < 100"
  shows "clearLineFrom t y 0 = Some (t\<lparr>screenBuffer := (screenBuffer t)[nat y := blankLine]\<rparr>)"
proof -
  have "nat y < length (screenBuffer t)" using assms by (simp add: bufferShape_def)
  then have "length (screenBuffer t ! nat y) = 53"
    using assms(1) by (simp add: bufferShape_def)
  then show ?thesis using assms(2,3) by (simp add: clearLineFrom_def blankFrom_zero)
qed

lemma scrollUp_eq:
  assumes "bufferShape t" "0 \<le> totalLines t" "totalLines t < 2147483647"
  shows "scrollUp t = Some (t\<lparr>screenBuffer := (screenBuffer t)[nat (totalLines t mod 100) := blankLine],
                            cursorY := totalLines t mod 100, totalLines := totalLines t + 1\<rparr>)"
  using assms
  by (simp add: scrollUp_def Let_def rem32_nonneg clearLineFrom_zero add32_def wrap32_id)

lemma ensureCursorVisible_hidden:
  "\<not> keyboardVisible t \<Longrightarrow> ensureCursorVisible t = t\<lparr>scrollOffset := 0\<rparr>"
  by (simp add: ensureCursorVisible_def)

lemma ensureCursorVisible_fields:
  "screenBuffer (ensureCursorVisible t) = screenBuffer t"
  "cursorX (ensureCursorVisible t) = cursorX t"
  "cursorY (ensureCursorVisible t) = cursorY t"
  "totalLines (ensureCursorVisible t) = totalLines t"
  "keyboardVisible (ensureCursorVisible t) = keyboardVisible t"
  by (simp_all add: ensureCursorVisible_def Let_def)

lemma lineAdvance_inner:
  assumes "bufferShape t" "0 \<le> cursorY t" "cursorY t < 99"
  shows "lineAdvance t = Some (ensureCursorVisible
           (t\<lparr>cursorX := 0, cursorY := cursorY t + 1,
              screenBuffer := (screenBuffer t)[nat (cursorY t + 1) := blankLine],
              totalLines := (if totalLines t < TERMINAL_BUFFER_ROWS \<and> totalLines t \<le> cursorY t + 1
                             then cursorY t + 2 else totalLines t)\<rparr>))"
proof -
  let ?t1 = "t\<lparr>cursorX := 0, cursorY := add32 (cursorY t) 1\<rparr>"
  have y: "add32 (cursorY t) 1 = cursorY t + 1"
    using assms(2,3) by (simp add: add32_def wrap32_id)
  have y2: "add32 (cursorY t + 1) 1 = cursorY t + 2"
    using assms(2,3) by (simp add: add32_def wrap32_id)
  have s1: "bufferShape ?t1" using assms(1) by (simp add: bufferShape_def)
  have c: "clearLineFrom ?t1 (cursorY t + 1) 0
           = Some (?t1\<lparr>screenBuffer := (screenBuffer ?t1)[nat (cursorY t + 1) := blankLine]\<rparr>)"
    using assms(2,3) by (intro clearLineFrom_zero[OF s1]) simp_all
  have "lineAdvance t = Some (ensureCursorVisible
           (let t2 = ?t1\<lparr>screenBuffer := (screenBuffer ?t1)[nat (cursorY t + 1) := blankLine]\<rparr>
            in if totalLines t2 < TERMINAL_BUFFER_ROWS \<and> totalLines t2 \<le> cursorY t2
               then t2\<lparr>totalLines := add32 (cursorY t2) 1\<rparr> else t2))"
    unfolding lineAdvance_def Let_def using assms(2,3) c
    by (simp add: y y2)
  also have "\<dots> = Some (ensureCursorVisible
           (t\<lparr>cursorX := 0, cursorY := cursorY t + 1,
              screenBuffer := (screenBuffer t)[nat (cursorY t + 1) := blankLine],
              totalLines := (if totalLines t < TERMINAL_BUFFER_ROWS \<and> totalLines t \<le> cursorY t + 1
                             then cursorY t + 2 else totalLines t)\<rparr>))"
    unfolding Let_def option.inject
    by (rule arg_cong[where f = ensureCursorVisible], rule terminal.equality) (simp_all add: y y2)
  finally show ?thesis .
qed

lemma lineAdvance_last:
  assumes "bufferShape t" "cursorY t = 99" "TERMINAL_BUFFER_ROWS \<le> totalLines t" "totalLines t < 2147483647"
  shows "lineAdvance t = Some (ensureCursorVisible
           (t\<lparr>cursorX := 0, cursorY := totalLines t mod 100,
              screenBuffer := (screenBuffer t)[nat (totalLines t mod 100) := blankLine],
              totalLines := totalLines t + 1\<rparr>))"
proof -
  let ?t3 = "t\<lparr>cursorX := 0, cursorY := 99\<rparr>"
  have s3: "bufferShape ?t3" using assms(1) by (simp add: bufferShape_def)
  have su: "scrollUp ?t3 = Some (?t3\<lparr>screenBuffer := (screenBuffer ?t3)[nat (totalLines ?t3 mod 100) := blankLine],
                            cursorY := totalLines ?t3 mod 100, totalLines := totalLines ?t3 + 1\<rparr>)"
    using assms(3,4) by (intro scrollUp_eq[OF s3]) simp_all
  have "lineAdvance t = Some (ensureCursorVisible
           (?t3\<lparr>screenBuffer := (screenBuffer ?t3)[nat (totalLines ?t3 mod 100) := blankLine],
                 cursorY := totalLines ?t3 mod 100, totalLines := totalLines ?t3 + 1\<rparr>))"
    unfolding lineAdvance_def Let_def using assms(2,3) su
    by (simp add: add32_def sub32_def wrap32_id)
  also have "\<dots> = Some (ensureCursorVisible
           (t\<lparr>cursorX := 0, cursorY := totalLines t mod 100,
              screenBuffer := (screenBuffer t)[nat (totalLines t mod 100) := blankLine],
              totalLines := totalLines t + 1\<rparr>))"
    unfolding option.inject
    by (rule arg_cong[where f = ensureCursorVisible], rule terminal.equality) simp_all
  finally show ?thesis .
qed

text \<open>
  \<open>scrollUp\<close> on its own does what a newline on a full buffer is meant to do: in
  every state with a well-shaped buffer and \<open>TERMINAL_BUFFER_ROWS \<le> totalLines\<close> it
  makes the row \<open>totalLines mod TERMINAL_BUFFER_ROWS\<close> blank, puts the cursor on that
  row, adds one to \<open>totalLines\<close> and leaves every other row as it was. A line feed
  has this effect when the cursor is on the last physical row, the only path of
  \<open>putChar\<close> that calls \<open>scrollUp\<close>.
\<close>

lemma scrollUp_reuses_one_slot:
  assumes "bufferShape t" and "TERMINAL_BUFFER_ROWS \<le> totalLines t" and "totalLines t < 2147483647"
  shows "\<exists>t1. scrollUp t = Some t1
           \<and> screenBuffer t1 ! nat (totalLines t mod TERMINAL_BUFFER_ROWS) = blankLine
           \<and> cursorY t1 = totalLines t mod TERMINAL_BUFFER_ROWS
           \<and> totalLines t1 = totalLines t + 1
           \<and> length (screenBuffer t1) = length (screenBuffer t)
           \<and> (\<forall>j. j \<noteq> nat (totalLines t mod TERMINAL_BUFFER_ROWS)
                  \<longrightarrow> screenBuffer t1 ! j = screenBuffer t ! j)
           \<and> cursorX t1 = cursorX t \<and> scrollOffset t1 = scrollOffset t
           \<and> (cursorY t = TERMINAL_BUFFER_ROWS - 1 \<longrightarrow>
                (\<exists>t2. putChar t 0x0A = Some t2
                   \<and> screenBuffer t2 = screenBuffer t1 \<and> cursorY t2 = cursorY t1
                   \<and> totalLines t2 = totalLines t1))"
proof -
  let ?slot = "totalLines t mod 100"
  let ?t1 = "t\<lparr>screenBuffer := (screenBuffer t)[nat ?slot := blankLine],
               cursorY := ?slot, totalLines := totalLines t + 1\<rparr>"
  have su: "scrollUp t = Some ?t1"
    using assms by (intro scrollUp_eq) simp_all
  have lt: "nat ?slot < length (screenBuffer t)"
    using assms(1) by (simp add: bufferShape_def nat_less_iff)
  have nl: "cursorY t = 99 \<Longrightarrow> \<exists>t2. putChar t 0x0A = Some t2
                   \<and> screenBuffer t2 = screenBuffer ?t1 \<and> cursorY t2 = cursorY ?t1
                   \<and> totalLines t2 = totalLines ?t1"
    using lineAdvance_last[OF assms(1) _ assms(2,3)]
    by (simp add: putChar_def ensureCursorVisible_fields)
  show ?thesis
    using su lt nl by simp
qed

lemma bufferShape_used: "bufferShape usedTerminal"
proof -
  let ?a = "freshTerminal\<lparr>screenBuffer := (screenBuffer freshTerminal)[0 := replicate 53 0x78]\<rparr>"
  have a: "bufferShape ?a"
    by (rule bufferShape_update[OF bufferShape_fresh, where row = "replicate 53 0x78" and i = 0])
       simp_all
  show ?thesis
    by (rule bufferShape_update[OF a, where row = "replicate 53 0x79" and i = 1])
       (simp_all add: usedTerminal_def)
qed

lemma scrollUp_on_usedTerminal:
  "\<exists>t1. scrollUp usedTerminal = Some t1
      \<and> screenBuffer usedTerminal ! 0 = replicate 53 0x78
      \<and> screenBuffer t1 ! 0 = blankLine \<and> cursorY t1 = 0 \<and> totalLines t1 = 101
      \<and> screenBuffer t1 ! 1 = replicate 53 0x79
      \<and> (\<exists>t2. putChar usedTerminal 0x0A = Some t2
            \<and> screenBuffer t2 = screenBuffer t1 \<and> cursorY t2 = 0 \<and> totalLines t2 = 101)"
  using scrollUp_reuses_one_slot [of usedTerminal] bufferShape_used
  by (auto simp: usedTerminal_def freshTerminal_def terminalInit_def staticInit_def)

subsection \<open>Cursor bounds\<close>

text \<open>
  As long as no \<^verbatim>\<open>int\<close> overflows, the cursor stays inside the buffer and every
  store is in range: \<open>putChar\<close> and \<open>scrollUp\<close> keep the bounds while \<open>totalLines\<close> is
  below the largest \<^verbatim>\<open>int\<close>, \<open>terminalClear\<close> and \<open>terminalScroll\<close> always, and
  \<open>processEscSequence\<close> when the sequence holds at most nine digits, so that no
  parameter exceeds \<open>10 ^ 9\<close>.
\<close>

lemma scrollUp_bounds:
  assumes "0 \<le> totalLines t" "totalLines t < 2147483647"
  shows "\<exists>t1. scrollUp t = Some t1 \<and> cursorX t1 = cursorX t
            \<and> 0 \<le> cursorY t1 \<and> cursorY t1 < TERMINAL_BUFFER_ROWS \<and> 0 \<le> totalLines t1"
  using assms rem32_range[OF assms(1)]
  by (simp add: scrollUp_def Let_def clearLineFrom_def add32_def wrap32_id)

lemma lineAdvance_bounds:
  assumes "0 \<le> cursorY t" "cursorY t < TERMINAL_BUFFER_ROWS"
      and "0 \<le> totalLines t" "totalLines t < 2147483647"
  shows "\<exists>t1. lineAdvance t = Some t1 \<and> cursorX t1 = 0
            \<and> 0 \<le> cursorY t1 \<and> cursorY t1 < TERMINAL_BUFFER_ROWS \<and> 0 \<le> totalLines t1"
proof (cases "cursorY t < 99")
  case True
  have y: "add32 (cursorY t) 1 = cursorY t + 1" "add32 (cursorY t + 1) 1 = cursorY t + 2"
    using assms(1,2) by (simp_all add: add32_def wrap32_id)
  show ?thesis
    using True assms(1,3)
    by (simp add: lineAdvance_def Let_def clearLineFrom_def y ensureCursorVisible_fields)
next
  case False
  then have y99: "cursorY t = 99" using assms(2) by simp
  let ?t3 = "(if totalLines t < TERMINAL_BUFFER_ROWS
              then t\<lparr>cursorX := 0, cursorY := 100, totalLines := 101\<rparr>
              else t\<lparr>cursorX := 0, cursorY := 100\<rparr>)\<lparr>cursorY := 99\<rparr>"
  have la: "lineAdvance t = map_option ensureCursorVisible (scrollUp ?t3)"
    using y99 assms(3)
    by (simp add: lineAdvance_def Let_def add32_def sub32_def wrap32_id map_option_case)
  have "\<exists>t1. scrollUp ?t3 = Some t1 \<and> cursorX t1 = cursorX ?t3
            \<and> 0 \<le> cursorY t1 \<and> cursorY t1 < TERMINAL_BUFFER_ROWS \<and> 0 \<le> totalLines t1"
    by (rule scrollUp_bounds) (use assms(3,4) in auto)
  then show ?thesis
    unfolding la by (auto simp: ensureCursorVisible_fields)
qed

lemma putChar_keeps_bounds:
  assumes "cursorInBounds t" "0 \<le> totalLines t" "totalLines t < 2147483647"
  shows "\<exists>t1. putChar t cp = Some t1 \<and> cursorInBounds t1 \<and> 0 \<le> totalLines t1"
proof -
  have b: "0 \<le> cursorX t" "cursorX t < 53" "0 \<le> cursorY t" "cursorY t < 100"
    using assms(1) by (simp_all add: cursorInBounds_def)
  let ?t1 = "t\<lparr>screenBuffer := (screenBuffer t)[nat (cursorY t) :=
                    (screenBuffer t ! nat (cursorY t))[nat (cursorX t) := cp]],
               cursorX := cursorX t + 1\<rparr>"
  have adv: "\<exists>t1. lineAdvance ?t1 = Some t1 \<and> cursorX t1 = 0
            \<and> 0 \<le> cursorY t1 \<and> cursorY t1 < TERMINAL_BUFFER_ROWS \<and> 0 \<le> totalLines t1"
    by (rule lineAdvance_bounds) (use b assms(2,3) in simp_all)
  have adv0: "\<exists>t1. lineAdvance t = Some t1 \<and> cursorX t1 = 0
            \<and> 0 \<le> cursorY t1 \<and> cursorY t1 < TERMINAL_BUFFER_ROWS \<and> 0 \<le> totalLines t1"
    by (rule lineAdvance_bounds) (use b assms(2,3) in simp_all)
  show ?thesis
    using b assms(2) adv adv0
    by (auto simp: putChar_def storeCell_def Let_def add32_id sub32_id cursorInBounds_def)
qed

lemma foldl_setForeground_cursor:
  "cursorX (foldl setForeground t ps) = cursorX t \<and> cursorY (foldl setForeground t ps) = cursorY t"
  by (induction ps arbitrary: t) (simp_all add: setForeground_def)

lemma runCommand_keeps_bounds:
  assumes "cursorInBounds t" "length params = 4"
      and "\<forall>p \<in> set params. 0 \<le> p \<and> p \<le> 2147483547"
  shows "\<exists>t1. runCommand t cmd params paramCount = Some t1 \<and> cursorInBounds t1"
proof -
  have b: "0 \<le> cursorX t" "cursorX t < 53" "0 \<le> cursorY t" "cursorY t < 100"
    using assms(1) by (simp_all add: cursorInBounds_def)
  have "params ! 0 \<in> set params" using assms(2) by (intro nth_mem) simp
  then have p: "0 \<le> params ! 0" "params ! 0 \<le> 2147483547"
    using assms(3) by auto
  define p0 where "p0 = (if params ! 0 = 0 then 1 else params ! 0)"
  have p0: "1 \<le> p0" "p0 \<le> 2147483547" using p by (auto simp: p0_def)
  have ar: "sub32 (cursorY t) p0 = cursorY t - p0" "add32 (cursorY t) p0 = cursorY t + p0"
    "sub32 (cursorX t) p0 = cursorX t - p0" "add32 (cursorX t) p0 = cursorX t + p0"
    using b p0 by (simp_all add: add32_def sub32_def wrap32_id)
  show ?thesis
    using b p0 unfolding runCommand_def Let_def p0_def[symmetric] ar
    by (auto simp: cursorInBounds_def constrain_def clearLineFrom_def terminalClear_def
          foldl_setForeground_cursor)
qed

lemma parseStep_bounded:
  assumes "parseBounded d st" "d + (if isDigit c then 1 else 0) \<le> 9"
  shows "parseBounded (d + (if isDigit c then 1 else 0)) (parseStep st c)"
proof -
  obtain params paramCount num hasNum where st: "st = (params, paramCount, num, hasNum)"
    by (cases st)
  have g: "length params = 4" "\<forall>p \<in> set params. 0 \<le> p \<and> p < 10 ^ 9"
    "0 \<le> paramCount" "0 \<le> num" "num < 10 ^ d"
    using assms(1) st by simp_all
  show ?thesis
  proof (cases "isDigit c")
    case True
    have d8: "Suc d \<le> 9" using assms(2) True by simp
    have v: "0 \<le> uint c - 0x30" "uint c - 0x30 \<le> 9"
      using digit_value[OF True] by simp_all
    have lt: "num * 10 + (uint c - 0x30) < 10 ^ Suc d"
      using g(5) v by simp
    have "(10::int) ^ Suc d \<le> 10 ^ 9" by (rule pow10_le[OF d8])
    then have lt9: "num * 10 + (uint c - 0x30) < 2147483648"
      using lt by simp
    have n: "add32 (mul32 num 10) (uint c - 0x30) = num * 10 + (uint c - 0x30)"
      using g(4) v lt9 by (simp add: add32_def mul32_def wrap32_id)
    show ?thesis
      using True g v lt unfolding st
      by (simp add: isDigit_def n del: power_Suc)
  next
    case False
    have z: "(0::int) < 10 ^ d" by simp
    have le9: "(10::int) ^ d \<le> 10 ^ 9"
      using assms(2) False by (intro pow10_le) simp
    have num9: "num < 10 ^ 9" using g(5) le9 by linarith
    have upd: "\<forall>p \<in> set (params[nat paramCount := num]). 0 \<le> p \<and> p < 10 ^ 9"
      using g(2,4) num9 by (auto dest!: set_update_subset_insert[THEN subsetD])
    show ?thesis
      using False g z upd unfolding st
      by (auto simp: isDigit_def)
  qed
qed

lemma foldl_parseStep_bounded:
  "parseBounded d st \<Longrightarrow> d + length (filter isDigit body) \<le> 9
   \<Longrightarrow> parseBounded (d + length (filter isDigit body)) (foldl parseStep st body)"
proof (induction body arbitrary: d st)
  case Nil
  then show ?case by simp
next
  case (Cons c body)
  let ?d1 = "d + (if isDigit c then 1 else 0)"
  have s1: "parseBounded ?d1 (parseStep st c)"
    by (rule parseStep_bounded[OF Cons.prems(1)]) (use Cons.prems(2) in auto)
  have "parseBounded (?d1 + length (filter isDigit body)) (foldl parseStep (parseStep st c) body)"
    by (rule Cons.IH[OF s1]) (use Cons.prems(2) in auto)
  then show ?case by (cases "isDigit c") simp_all
qed

lemma parseParams_bounded:
  assumes "length (filter isDigit body) \<le> 9" "parseParams body = (params, paramCount)"
  shows "length params = 4 \<and> (\<forall>p \<in> set params. 0 \<le> p \<and> p \<le> 2147483547)"
proof -
  obtain ps pc num hasNum
    where f: "foldl parseStep ([0, 0, 0, 0], 0, 0, False) body = (ps, pc, num, hasNum)"
    by (cases "foldl parseStep ([0, 0, 0, 0], 0, 0, False) body")
  have "parseBounded (0 + length (filter isDigit body)) (foldl parseStep ([0, 0, 0, 0], 0, 0, False) body)"
    by (rule foldl_parseStep_bounded) (use assms(1) in simp_all)
  then have g: "length ps = 4" "\<forall>p \<in> set ps. 0 \<le> p \<and> p < 10 ^ 9" "0 \<le> num"
    "num < 10 ^ length (filter isDigit body)"
    unfolding f by simp_all
  have "(10::int) ^ length (filter isDigit body) \<le> 10 ^ 9"
    by (rule pow10_le[OF assms(1)])
  then have num9: "num < 10 ^ 9" using g(4) by linarith
  have upd: "\<forall>p \<in> set (ps[nat pc := num]). 0 \<le> p \<and> p < 10 ^ 9"
    using g(2,3) num9 by (auto dest!: set_update_subset_insert[THEN subsetD])
  have "length params = 4 \<and> (\<forall>p \<in> set params. 0 \<le> p \<and> p < 10 ^ 9)"
    using assms(2) g(1,2) upd unfolding parseParams_def f
    by (auto split: if_splits)
  then show ?thesis by fastforce
qed

lemma processEscSequence_keeps_bounds:
  assumes "cursorInBounds t" "escIndex t < 32"
      and "length (filter isDigit (escBuffer t)) \<le> 9"
  shows "\<exists>t1. processEscSequence t = Some t1 \<and> cursorInBounds t1"
proof (cases "2 \<le> escIndex t \<and> escBuffer t ! 0 = 0x5B")
  case False
  then show ?thesis
    using assms(1,2) by (auto simp: processEscSequence_def resetEsc_def cursorInBounds_def)
next
  case True
  obtain params paramCount
    where pp: "parseParams (butlast (tl (escBuffer t))) = (params, paramCount)"
    by (cases "parseParams (butlast (tl (escBuffer t)))")
  have "length (filter isDigit (butlast (tl (escBuffer t)))) \<le> length (filter isDigit (escBuffer t))"
  proof (cases "escBuffer t")
    case Nil
    then show ?thesis by simp
  next
    case (Cons a as)
    have "length (filter isDigit (butlast as)) \<le> length (filter isDigit as)"
      by (cases as rule: rev_cases) simp_all
    then show ?thesis using Cons by simp
  qed
  then have nd: "length (filter isDigit (butlast (tl (escBuffer t)))) \<le> 9"
    using assms(3) by linarith
  have pb: "length params = 4" "\<forall>p \<in> set params. 0 \<le> p \<and> p \<le> 2147483547"
    using parseParams_bounded[OF nd pp] by simp_all
  obtain t1 where r: "runCommand t (escBuffer t ! nat (escIndex t - 1)) params paramCount = Some t1"
    and b1: "cursorInBounds t1"
    using runCommand_keeps_bounds[OF assms(1) pb] by blast
  have "processEscSequence t = Some (resetEsc t1)"
    using True assms(2) pp r by (simp add: processEscSequence_def)
  moreover have "cursorInBounds (resetEsc t1)"
    using b1 by (simp add: cursorInBounds_def resetEsc_def)
  ultimately show ?thesis by blast
qed

lemma terminalClear_keeps_bounds: "cursorInBounds (terminalClear t)"
  by (simp add: cursorInBounds_def terminalClear_def)

lemma terminalScroll_keeps_bounds: "cursorInBounds t \<Longrightarrow> cursorInBounds (terminalScroll t delta)"
  by (simp add: cursorInBounds_def terminalScroll_def Let_def)

text \<open>
  C9 does not hold of the code. The bytes ESC [ 4 2 9 4 9 6 7 1 9 6 A give the
  parameter loop the number 4294967196, which the 32-bit \<^verbatim>\<open>int\<close> holds as -100.
  Cursor up subtracts it, checks only the lower bound, and leaves \<open>cursorY\<close> at 100,
  one row past the buffer. The next printable character is stored outside the
  array.
\<close>

theorem cursor_up_overflow:
  "cursorPosition (terminalFeed freshTerminal
       [0x1B, 0x5B, 0x34, 0x32, 0x39, 0x34, 0x39, 0x36, 0x37, 0x31, 0x39, 0x36, 0x41]) = Some (100, 0)
   \<and> terminalFeed freshTerminal
       [0x1B, 0x5B, 0x34, 0x32, 0x39, 0x34, 0x39, 0x36, 0x37, 0x31, 0x39, 0x36, 0x41, 0x78] = None"
  by (simp add: cursorPosition_def freshTerminal_def terminalInit_def staticInit_def
        terminalUpdate_def escIndex_def isLetter_def processEscSequence_def parseParams_def
        runCommand_def resetEsc_def add32_def mul32_def sub32_def wrap32_def
        utf8Decode_def utf8Init_def utf8GetCodepoint_def putChar_def storeCell_def)

subsection \<open>Printable code points\<close>

lemma putChars_append:
  "putChars t (xs @ ys) = (case putChars t xs of None \<Rightarrow> None | Some t1 \<Rightarrow> putChars t1 ys)"
  by (induction xs arbitrary: t) (auto split: option.splits)

lemma putChars_single: "putChars t [c] = putChar t c"
  by (simp split: option.splits)

lemma appendLines_snoc:
  "appendLines t (ls @ [l]) = (case appendLines t ls of None \<Rightarrow> None | Some t1 \<Rightarrow> appendLine t1 l)"
  by (induction ls arbitrary: t) (auto split: option.splits)

lemma printable_not_control:
  fixes c :: u32
  assumes "32 \<le> c"
  shows "c \<noteq> 0x0D" "c \<noteq> 0x0A" "c \<noteq> 0x08"
  using assms by auto

lemma putChar_printable:
  assumes "cursorY t = int y" "y < 100" "cursorX t = int x" "x < 52" "32 \<le> c"
  shows "putChar t c = Some (t\<lparr>screenBuffer := (screenBuffer t)[y := (screenBuffer t ! y)[x := c]],
                             cursorX := int x + 1\<rparr>)"
proof -
  have a: "add32 (int x) 1 = int x + 1"
    using assms(4) by (simp add: add32_def wrap32_id)
  have "putChar t c = (case storeCell t (cursorY t) (cursorX t) c of
           None \<Rightarrow> None
         | Some t1 \<Rightarrow>
             (let t2 = t1\<lparr>cursorX := add32 (cursorX t1) 1\<rparr> in
              if TERMINAL_COLS \<le> cursorX t2 then lineAdvance t2 else Some t2))"
    using printable_not_control[OF assms(5)] assms(5) by (simp add: putChar_def)
  also have "\<dots> = Some (t\<lparr>screenBuffer := (screenBuffer t)[y := (screenBuffer t ! y)[x := c]],
                             cursorX := int x + 1\<rparr>)"
    using assms(1-4) by (simp add: storeCell_def Let_def a)
  finally show ?thesis .
qed

text \<open>
  Printable code points that stay within the row overwrite the cells from the cursor
  on and move the cursor by their number; no other variable changes.
\<close>

lemma putChars_printable:
  assumes "bufferShape t" "cursorY t = int y" "y < 100" "cursorX t = int x"
      and "x + length l \<le> 52" "\<forall>c \<in> set l. 32 \<le> c"
  shows "putChars t l = Some (t\<lparr>screenBuffer := (screenBuffer t)
             [y := take x (screenBuffer t ! y) @ l @ drop (x + length l) (screenBuffer t ! y)],
           cursorX := int (x + length l)\<rparr>)"
  using assms
proof (induction l arbitrary: t x)
  case Nil
  have "(screenBuffer t)[y := take x (screenBuffer t ! y) @ drop x (screenBuffer t ! y)] = screenBuffer t"
    by simp
  then show ?case using Nil.prems(4) by simp
next
  case (Cons c l)
  let ?row = "screenBuffer t ! y"
  let ?t1 = "t\<lparr>screenBuffer := (screenBuffer t)[y := ?row[x := c]], cursorX := int x + 1\<rparr>"
  have len: "length ?row = 53" "length (screenBuffer t) = 100"
    by (rule bufferShape_row[OF Cons.prems(1,3)], rule bufferShape_length[OF Cons.prems(1)])
  have step: "putChar t c = Some ?t1"
  proof (rule putChar_printable)
    show "cursorY t = int y" by (rule Cons.prems(2))
    show "y < 100" by (rule Cons.prems(3))
    show "cursorX t = int x" by (rule Cons.prems(4))
    show "x < 52" using Cons.prems(5) by simp
    show "32 \<le> c" using Cons.prems(6) by simp
  qed
  have row1: "screenBuffer ?t1 ! y = ?row[x := c]"
    using len Cons.prems(3) by simp
  have sh1: "bufferShape ?t1"
    by (rule bufferShape_update[OF Cons.prems(1), where row = "?row[x := c]" and i = y])
       (simp_all add: len)
  have ih: "putChars ?t1 l = Some (?t1\<lparr>screenBuffer := (screenBuffer ?t1)
             [y := take (Suc x) (screenBuffer ?t1 ! y) @ l @ drop (Suc x + length l) (screenBuffer ?t1 ! y)],
           cursorX := int (Suc x + length l)\<rparr>)"
  proof (rule Cons.IH[OF sh1])
    show "cursorY ?t1 = int y" using Cons.prems(2) by simp
    show "y < 100" by (rule Cons.prems(3))
    show "cursorX ?t1 = int (Suc x)" by simp
    show "Suc x + length l \<le> 52" using Cons.prems(5) by simp
    show "\<forall>c \<in> set l. 32 \<le> c" using Cons.prems(6) by simp
  qed
  have tk: "take (Suc x) (?row[x := c]) = take x ?row @ [c]"
    using len Cons.prems(5) by (simp add: take_Suc_conv_app_nth)
  have "putChars t (c # l) = putChars ?t1 l" using step by simp
  also have "\<dots> = Some (t\<lparr>screenBuffer := (screenBuffer t)
           [y := take x ?row @ (c # l) @ drop (x + length (c # l)) ?row],
         cursorX := int (x + length (c # l))\<rparr>)"
    unfolding ih option.inject
    using Cons.prems(3) by (intro terminal.equality) (simp_all add: len tk)
  finally show ?case .
qed

text \<open>
  Fifty-three printable code points from column 0 of a row above the last one fill
  the row and take the line-advance path once.
\<close>

lemma putChars_full_row:
  assumes "bufferShape t" "cursorY t = int y" "y < 99" "cursorX t = 0"
      and "length l = 53" "\<forall>c \<in> set l. 32 \<le> c"
  shows "putChars t l = Some (ensureCursorVisible
           (t\<lparr>cursorX := 0, cursorY := int y + 1,
              screenBuffer := (screenBuffer t)[y := l, Suc y := blankLine],
              totalLines := (if totalLines t < TERMINAL_BUFFER_ROWS \<and> totalLines t \<le> int y + 1
                             then int y + 2 else totalLines t)\<rparr>))"
proof -
  obtain l0 c where l: "l = l0 @ [c]" and l0: "length l0 = 52"
    using assms(5) by (cases l rule: rev_cases) auto
  let ?row = "screenBuffer t ! y"
  have len: "length ?row = 53" "length (screenBuffer t) = 100"
    using assms(1,3) bufferShape_row[of t y] bufferShape_length by simp_all
  let ?ta = "t\<lparr>screenBuffer := (screenBuffer t)[y := l0 @ drop 52 ?row], cursorX := 52\<rparr>"
  have a: "putChars t l0 = Some ?ta"
    using putChars_printable[of t y 0 l0] assms l l0 by simp
  have pc: "32 \<le> c" using assms(6) l by simp
  let ?tb = "t\<lparr>screenBuffer := (screenBuffer t)[y := l], cursorX := 53\<rparr>"
  have d: "(drop 52 ?row)[0 := c] = [c]"
  proof -
    have "length (drop 52 ?row) = 1" using len by simp
    then obtain z where "drop 52 ?row = [z]"
      by (cases "drop 52 ?row") auto
    then show ?thesis by simp
  qed
  have sb: "storeCell ?ta (int y) 52 c = Some (?ta\<lparr>screenBuffer := (screenBuffer t)[y := l]\<rparr>)"
    using assms(3) len l l0 by (simp add: storeCell_def nth_append list_update_append d)
  have shb: "bufferShape ?tb"
    by (rule bufferShape_update[OF assms(1), where row = l and i = y]) (simp_all add: assms(5))
  have b: "putChar ?ta c = lineAdvance ?tb"
    using printable_not_control[OF pc] pc assms(2) sb
    by (simp add: putChar_def Let_def add32_def wrap32_id)
  have c: "lineAdvance ?tb = Some (ensureCursorVisible
           (?tb\<lparr>cursorX := 0, cursorY := cursorY ?tb + 1,
              screenBuffer := (screenBuffer ?tb)[nat (cursorY ?tb + 1) := blankLine],
              totalLines := (if totalLines ?tb < TERMINAL_BUFFER_ROWS \<and> totalLines ?tb \<le> cursorY ?tb + 1
                             then cursorY ?tb + 2 else totalLines ?tb)\<rparr>))"
    using assms(2,3) by (intro lineAdvance_inner[OF shb]) simp_all
  have "putChars t l = putChar ?ta c"
    using a by (simp add: l putChars_append split: option.splits)
  also have "\<dots> = Some (ensureCursorVisible
           (t\<lparr>cursorX := 0, cursorY := int y + 1,
              screenBuffer := (screenBuffer t)[y := l, Suc y := blankLine],
              totalLines := (if totalLines t < TERMINAL_BUFFER_ROWS \<and> totalLines t \<le> int y + 1
                             then int y + 2 else totalLines t)\<rparr>))"
    unfolding b c option.inject
    by (rule arg_cong[where f = ensureCursorVisible], rule terminal.equality)
       (simp_all add: assms(2) nat_add_distrib)
  finally show ?thesis .
qed

subsection \<open>Lines appended to a fresh terminal\<close>

lemma lineAt_snoc_same: "j \<noteq> length ls \<Longrightarrow> lineAt (ls @ [l]) j = lineAt ls j"
  by (auto simp: lineAt_def nth_append)

lemma lineAt_snoc_new: "lineAt (ls @ [l]) (length ls) = padLine l"
  by (simp add: lineAt_def)

lemma lineAt_beyond: "length ls \<le> j \<Longrightarrow> lineAt ls j = blankLine"
  by (simp add: lineAt_def)

lemma slot_cur: "k < 200 \<Longrightarrow> slotLine k (k mod 100) = k"
  by (simp add: slotLine_def mod100)

lemma slot_next_cur: "k < 199 \<Longrightarrow> slotLine (Suc k) (k mod 100) = k"
  by (simp add: slotLine_def mod100)

lemma slot_other: "r < 100 \<Longrightarrow> r \<noteq> Suc k mod 100 \<Longrightarrow> k < 199 \<Longrightarrow> slotLine (Suc k) r = slotLine k r"
  by (simp add: slotLine_def mod100 split: if_splits; arith)

lemma slot_other_ne: "r < 100 \<Longrightarrow> r \<noteq> k mod 100 \<Longrightarrow> k < 200 \<Longrightarrow> slotLine k r \<noteq> k"
  by (simp add: slotLine_def mod100 split: if_splits; arith)

lemma mod_next_ne: "k < 199 \<Longrightarrow> k mod 100 \<noteq> Suc k mod 100"
  by (simp add: mod100 split: if_splits; arith)

lemma rows_step:
  assumes k: "k = length ls" "k < 199" and len: "length buf = 100"
      and rows: "\<And>r. r < 100 \<Longrightarrow> buf ! r = lineAt ls (slotLine k r)"
      and r: "r < 100"
  shows "buf[k mod 100 := padLine l, Suc k mod 100 := blankLine] ! r
         = lineAt (ls @ [l]) (slotLine (Suc k) r)"
proof -
  consider "r = Suc k mod 100" | "r = k mod 100" | "r \<noteq> k mod 100" "r \<noteq> Suc k mod 100"
    by blast
  then show ?thesis
  proof cases
    case 1
    have "slotLine (Suc k) r = Suc k"
      unfolding 1 by (rule slot_cur) (use k in simp)
    then show ?thesis using 1 len r k(1) by (simp add: lineAt_beyond)
  next
    case 2
    have "slotLine (Suc k) r = k"
      unfolding 2 by (rule slot_next_cur[OF k(2)])
    then show ?thesis using 2 len r k(1) mod_next_ne[OF k(2)] by (simp add: lineAt_snoc_new)
  next
    case 3
    have a: "slotLine (Suc k) r = slotLine k r"
      by (rule slot_other[OF r 3(2) k(2)])
    have b: "slotLine k r \<noteq> length ls"
      unfolding k(1)[symmetric] by (rule slot_other_ne[OF r 3(1)]) (use k in simp)
    show ?thesis using 3 rows[OF r] by (simp add: a lineAt_snoc_same[OF b])
  qed
qed

lemma linesState_fresh: "linesState [] freshTerminal"
  unfolding linesState_def
  by (simp add: bufferShape_fresh lineAt_def)
     (simp add: freshTerminal_def terminalInit_def staticInit_def)

lemma padLine_blank: "length l \<le> 53 \<Longrightarrow> l @ drop (length l) blankLine = padLine l"
  by (simp add: padLine_def blankLine_def)

lemma length_padLine: "length l \<le> 53 \<Longrightarrow> length (padLine l) = 53"
  by (simp add: padLine_def)

lemma appendLine_step:
  assumes st: "linesState ls t" and k: "length ls < 199" and pl: "printableLine l"
  shows "\<exists>t1. appendLine t l = Some t1 \<and> linesState (ls @ [l]) t1"
proof -
  let ?k = "length ls"
  let ?y = "?k mod 100"
  let ?y' = "Suc ?k mod 100"
  have sh: "bufferShape t" and kb: "\<not> keyboardVisible t" and cx: "cursorX t = 0"
    and cy: "cursorY t = int ?y"
    and tl: "totalLines t = (if ?k = 0 then 0 else if ?k < 100 then int ?k + 1 else 101)"
    and rows: "\<And>r. r < 100 \<Longrightarrow> screenBuffer t ! r = lineAt ls (slotLine ?k r)"
    using st unfolding linesState_def by simp_all
  have ylt: "?y < 100" by simp
  have len: "length (screenBuffer t) = 100" by (rule bufferShape_length[OF sh])
  have ll: "length l < 53" and lp: "\<forall>c \<in> set l. 32 \<le> c"
    using pl unfolding printableLine_def by simp_all
  have "slotLine ?k ?y = ?k" by (rule slot_cur) (use k in simp)
  then have cur: "screenBuffer t ! ?y = blankLine"
    using rows[OF ylt] by (simp add: lineAt_beyond)
  let ?ta = "t\<lparr>screenBuffer := (screenBuffer t)[?y := padLine l], cursorX := int (length l)\<rparr>"
  have a: "putChars t l = Some ?ta"
    using putChars_printable[OF sh cy ylt, of 0 l] cx ll lp cur
    by (simp add: padLine_blank)
  have sha: "bufferShape ?ta"
    by (rule bufferShape_update[OF sh, where row = "padLine l" and i = ?y])
       (use ll in \<open>simp_all add: length_padLine\<close>)
  have al: "appendLine t l = lineAdvance ?ta"
    using a by (simp add: appendLine_def putChars_append putChars_single del: putChars.simps)
       (simp add: putChar_def)
  let ?tl' = "if Suc ?k < 100 then int (Suc ?k) + 1 else 101"
  let ?tb = "t\<lparr>cursorX := 0, cursorY := int ?y',
                screenBuffer := (screenBuffer t)[?y := padLine l, ?y' := blankLine],
                totalLines := ?tl', scrollOffset := 0\<rparr>"
  have adv: "lineAdvance ?ta = Some ?tb"
  proof (cases "?y < 99")
    case True
    have y': "?y' = Suc ?y" using True by (simp add: mod_Suc)
    have kk: "?k < 99 \<or> 100 \<le> ?k"
      using True by (cases "?k < 100") simp_all
    have tlv: "(if totalLines t < TERMINAL_BUFFER_ROWS \<and> totalLines t \<le> int ?y + 1
                then int ?y + 2 else totalLines t) = ?tl'"
      using kk k tl by (auto simp: mod100)
    have "lineAdvance ?ta = Some (ensureCursorVisible
           (?ta\<lparr>cursorX := 0, cursorY := cursorY ?ta + 1,
              screenBuffer := (screenBuffer ?ta)[nat (cursorY ?ta + 1) := blankLine],
              totalLines := (if totalLines ?ta < TERMINAL_BUFFER_ROWS \<and> totalLines ?ta \<le> cursorY ?ta + 1
                             then cursorY ?ta + 2 else totalLines ?ta)\<rparr>))"
      by (rule lineAdvance_inner[OF sha]) (use cy True in simp_all)
    also have "\<dots> = Some (t\<lparr>cursorX := 0, cursorY := int (Suc ?y),
                screenBuffer := (screenBuffer t)[?y := padLine l, Suc ?y := blankLine],
                totalLines := (if totalLines t < TERMINAL_BUFFER_ROWS \<and> totalLines t \<le> int ?y + 1
                               then int ?y + 2 else totalLines t),
                scrollOffset := 0\<rparr>)"
      unfolding option.inject
      by (subst ensureCursorVisible_hidden, (simp add: kb)[1], rule terminal.equality)
         (simp_all add: cy nat_add_distrib)
    also have "\<dots> = Some ?tb"
      by (simp only: y' tlv)
    finally show ?thesis .
  next
    case False
    then have y99: "?y = 99" using ylt by simp
    have k99: "?k = 99"
      using y99 k by (cases "?k < 100") (simp_all add: mod100)
    have tl100: "totalLines t = 100" using tl k99 by simp
    have "lineAdvance ?ta = Some (ensureCursorVisible
           (?ta\<lparr>cursorX := 0, cursorY := totalLines ?ta mod 100,
              screenBuffer := (screenBuffer ?ta)[nat (totalLines ?ta mod 100) := blankLine],
              totalLines := totalLines ?ta + 1\<rparr>))"
      by (rule lineAdvance_last[OF sha]) (use cy y99 tl100 in simp_all)
    also have "\<dots> = Some ?tb"
      unfolding option.inject
      by (subst ensureCursorVisible_hidden, (simp add: kb)[1], rule terminal.equality)
         (simp_all add: k99 tl100)
    finally show ?thesis .
  qed
  have shb: "bufferShape ?tb"
    by (rule bufferShape_update[OF sha, where row = blankLine and i = ?y'])
       (simp_all add: length_blankLine)
  have rows': "\<forall>r < 100. screenBuffer ?tb ! r = lineAt (ls @ [l]) (slotLine (length (ls @ [l])) r)"
    using rows_step[OF refl k len rows, of _ l] by simp
  have tl': "totalLines ?tb = (if length (ls @ [l]) = 0 then 0
               else if length (ls @ [l]) < 100 then int (length (ls @ [l])) + 1 else 101)"
    by simp
  have "linesState (ls @ [l]) ?tb"
    unfolding linesState_def
    using shb kb rows' tl' by simp
  then show ?thesis using adv al by simp
qed

text \<open>
  After \<open>k \<le> 199\<close> printable lines the cursor is on row \<open>k mod 100\<close>, but \<open>totalLines\<close>
  stops at 101: once the buffer has wrapped, a line feed from a row above the last
  one takes the branch for a buffer that is not yet full and does not count the
  line.
\<close>

lemma appendLines_state:
  assumes "length ls \<le> 199" "\<forall>l \<in> set ls. printableLine l"
  shows "\<exists>t. appendLines freshTerminal ls = Some t \<and> linesState ls t"
  using assms
proof (induction ls rule: rev_induct)
  case Nil
  then show ?case using linesState_fresh by simp
next
  case (snoc l ls)
  then obtain t where t: "appendLines freshTerminal ls = Some t" "linesState ls t"
    by auto
  have "\<exists>t1. appendLine t l = Some t1 \<and> linesState (ls @ [l]) t1"
    by (rule appendLine_step[OF t(2)]) (use snoc.prems in simp_all)
  then show ?case using t(1) by (simp add: appendLines_snoc)
qed

text \<open>
  C1 does not hold of the code. After 105 lines (here 100 lines "a", then 5 lines
  "b") \<open>totalLines\<close> is 101 and not 106, and the cursor is on row 5. With the
  keyboard hidden and \<open>scrollOffset = 74\<close>, \<open>terminalRedraw\<close> draws the absolute lines
  1, 2, 3 and 4 from the rows 1 to 4; row 1 holds the text of line 101 ("b"), not
  what was written to line 1 ("a"), while row 6 still holds line 6.
\<close>

theorem append_105_lines_view:
  "\<exists>t. appendLines freshTerminal (replicate 100 [0x61] @ replicate 5 [0x62]) = Some t
      \<and> totalLines t = 101 \<and> cursorY t = 5
      \<and> take 4 (terminalRedraw (t\<lparr>scrollOffset := 74\<rparr>)) = [(1, 1, 1), (2, 2, 2), (3, 3, 3), (4, 4, 4)]
      \<and> screenBuffer t ! 1 = padLine [0x62]
      \<and> screenBuffer t ! 6 = padLine [0x61]"
proof -
  let ?ls = "replicate 100 [0x61] @ replicate 5 [0x62 :: u32]"
  have "\<exists>t. appendLines freshTerminal ?ls = Some t \<and> linesState ?ls t"
    by (rule appendLines_state) (auto simp: printableLine_def)
  then obtain t where t: "appendLines freshTerminal ?ls = Some t" and st: "linesState ?ls t"
    by blast
  have tl: "totalLines t = 101" and cy: "cursorY t = 5" and kb: "\<not> keyboardVisible t"
    and rows: "\<And>r. r < 100 \<Longrightarrow> screenBuffer t ! r = lineAt ?ls (slotLine 105 r)"
    using st unfolding linesState_def by simp_all
  have r1: "screenBuffer t ! 1 = padLine [0x62]"
    using rows[of 1] by (simp add: slotLine_def lineAt_def nth_append)
  have r6: "screenBuffer t ! 6 = padLine [0x61]"
    using rows[of 6] by (simp add: slotLine_def lineAt_def nth_append)
  have v: "visibleRows (t\<lparr>scrollOffset := 74\<rparr>) = 27"
    using kb by (simp add: visibleRows_def)
  have f: "firstLineToShow (t\<lparr>scrollOffset := 74\<rparr>) = 0"
    using tl by (simp add: firstLineToShow_def v sub32_def wrap32_def)
  have d: "take 4 (terminalRedraw (t\<lparr>scrollOffset := 74\<rparr>)) = [(1, 1, 1), (2, 2, 2), (3, 3, 3), (4, 4, 4)]"
    using tl by (simp add: terminalRedraw_def v f upto_rec1 add32_def sub32_def wrap32_def rem32_def)
  show ?thesis using t tl cy d r1 r6 by blast
qed

text \<open>
  C4 does not hold of the code. After 101 lines \<open>totalLines\<close> is 101 and the cursor
  is on row 1. A line feed in this state does not blank the row
  \<open>totalLines mod TERMINAL_BUFFER_ROWS = 1\<close> and does not count the line: it blanks
  row 2, which still held line 2, moves the cursor there and leaves \<open>totalLines\<close> at
  101, because \<open>scrollUp\<close> is called only from the last physical row.
\<close>

theorem newline_after_wrap_not_counted:
  "\<exists>t t1. appendLines freshTerminal (replicate 101 [0x61]) = Some t
      \<and> totalLines t = 101 \<and> cursorY t = 1
      \<and> screenBuffer t ! 2 = padLine [0x61]
      \<and> putChar t 0x0A = Some t1
      \<and> totalLines t1 = 101 \<and> cursorY t1 = 2
      \<and> screenBuffer t1 ! 2 = blankLine
      \<and> screenBuffer t1 ! 1 = screenBuffer t ! 1"
proof -
  let ?ls = "replicate 101 [0x61 :: u32]"
  have "\<exists>t. appendLines freshTerminal ?ls = Some t \<and> linesState ?ls t"
    by (rule appendLines_state) (auto simp: printableLine_def)
  then obtain t where t: "appendLines freshTerminal ?ls = Some t" and st: "linesState ?ls t"
    by blast
  have tl: "totalLines t = 101" and cy: "cursorY t = 1" and sh: "bufferShape t"
    and rows: "\<And>r. r < 100 \<Longrightarrow> screenBuffer t ! r = lineAt ?ls (slotLine 101 r)"
    using st unfolding linesState_def by simp_all
  have r2: "screenBuffer t ! 2 = padLine [0x61]"
    using rows[of 2] by (simp add: slotLine_def lineAt_def)
  let ?u = "t\<lparr>cursorX := 0, cursorY := cursorY t + 1,
              screenBuffer := (screenBuffer t)[nat (cursorY t + 1) := blankLine],
              totalLines := (if totalLines t < 100 \<and> totalLines t \<le> cursorY t + 1
                             then cursorY t + 2 else totalLines t)\<rparr>"
  have la: "putChar t 0x0A = Some (ensureCursorVisible ?u)"
    using lineAdvance_inner[OF sh] cy by (simp add: putChar_def)
  have len: "length (screenBuffer t) = 100" by (rule bufferShape_length[OF sh])
  have f: "totalLines (ensureCursorVisible ?u) = 101" "cursorY (ensureCursorVisible ?u) = 2"
    "screenBuffer (ensureCursorVisible ?u) ! 2 = blankLine"
    "screenBuffer (ensureCursorVisible ?u) ! 1 = screenBuffer t ! 1"
    using tl cy len by (simp_all add: ensureCursorVisible_fields)
  show ?thesis using t tl cy r2 la f by blast
qed

text \<open>
  C3 does not hold of the code once the buffer has wrapped. After 100 line feeds on a
  fresh terminal the cursor is at column 0 of row 0, which is absolute line 100, the
  newest one. Fifty-three printable code points then leave the cursor at column 0 of
  row 1, but \<open>totalLines\<close> stays 101, so the line number that the code computes for
  the cursor goes from 100 to 1 and not to 101.
\<close>

theorem wrap_after_buffer_wrap:
  "\<exists>t t1. appendLines freshTerminal (replicate 100 []) = Some t
      \<and> cursorX t = 0 \<and> cursorY t = 0 \<and> totalLines t = 101 \<and> cursorLineNumber t = 100
      \<and> putChars t (replicate 53 0x61) = Some t1
      \<and> cursorX t1 = 0 \<and> cursorY t1 = 1 \<and> totalLines t1 = 101 \<and> cursorLineNumber t1 = 1"
proof -
  let ?ls = "replicate 100 ([] :: u32 list)"
  have "\<exists>t. appendLines freshTerminal ?ls = Some t \<and> linesState ?ls t"
    by (rule appendLines_state) (auto simp: printableLine_def)
  then obtain t where t: "appendLines freshTerminal ?ls = Some t" and st: "linesState ?ls t"
    by blast
  have tl: "totalLines t = 101" and cy: "cursorY t = int 0" and cx: "cursorX t = 0"
    and sh: "bufferShape t"
    using st unfolding linesState_def by simp_all
  have cl: "cursorLineNumber t = 100"
    using tl cy by (simp add: cursorLineNumber_def Let_def rem32_def sub32_def add32_def wrap32_def)
  let ?t1 = "ensureCursorVisible
           (t\<lparr>cursorX := 0, cursorY := int 0 + 1,
              screenBuffer := (screenBuffer t)[0 := replicate 53 0x61, Suc 0 := blankLine],
              totalLines := (if totalLines t < TERMINAL_BUFFER_ROWS \<and> totalLines t \<le> int 0 + 1
                             then int 0 + 2 else totalLines t)\<rparr>)"
  have p: "putChars t (replicate 53 0x61) = Some ?t1"
    by (rule putChars_full_row[OF sh cy _ cx]) simp_all
  have f: "cursorX ?t1 = 0" "cursorY ?t1 = 1" "totalLines ?t1 = 101"
    using tl by (simp_all add: ensureCursorVisible_fields)
  have cl1: "cursorLineNumber ?t1 = 1"
    unfolding cursorLineNumber_def f Let_def
    by (simp add: rem32_def sub32_def add32_def wrap32_def)
  show ?thesis using t tl cy cx cl p f cl1 by (intro exI[of _ t] exI[of _ ?t1]) simp
qed

subsection \<open>Scrolling\<close>










subsection \<open>Command history\<close>





end
